theory Spec2Isabelle
  imports Complex_Main "HOL-Library.Sublist"
begin

section \<open>Values exchanged with the panel\<close>

text \<open>
  The module under study is \<^verbatim>\<open>pterodactyl_mcp/ai_tools.py\<close>. Its inputs are decoded JSON
  payloads (\<^verbatim>\<open>Any\<close> in the source), so the model starts with the JSON values Python's
  decoder produces. A Python \<^verbatim>\<open>dict\<close> is an association list read with \<open>map_of\<close>;
  Python's unbounded \<^verbatim>\<open>int\<close> is \<open>int\<close>.

  Two abstractions are made throughout and are not repeated below.
  \<^item> Python \<^verbatim>\<open>float\<close> values are exact rationals (\<open>rat\<close>): \<^verbatim>\<open>0.55\<close> is \<open>11/20\<close>, and
    no rounding error, infinity or NaN is modelled.
  \<^item> Python \<^verbatim>\<open>str\<close> values are \<open>string\<close>s whose characters are read as the code points
    U+0000 .. U+00FF. Code points beyond that range are outside the model.
\<close>

datatype json =
    JNull
  | JBool bool
  | JInt int
  | JFloat rat
  | JStr string
  | JList "json list"
  | JObj "(string \<times> json) list"

type_synonym dict = "(string \<times> json) list"

text \<open>\<^verbatim>\<open>d.get(k)\<close>: the value stored under \<open>k\<close>, \<^verbatim>\<open>None\<close> when the key is absent.\<close>

definition dict_get :: "dict \<Rightarrow> string \<Rightarrow> json" where
  "dict_get d k = (case map_of d k of None \<Rightarrow> JNull | Some v \<Rightarrow> v)"

text \<open>
  Exceptions are values. \<open>ValueError\<close> is what the module itself raises (and what
  \<^verbatim>\<open>int()\<close> raises on a malformed literal); \<open>ClientError\<close> stands for whatever
  \<^verbatim>\<open>PterodactylClient.request\<close> raises (a \<^verbatim>\<open>RuntimeError\<close> on status 400 and above, or a
  transport exception of the HTTP library).
\<close>

datatype error = ValueError | ClientError string

text \<open>
  Two functions of Python's standard library are not part of the repository and are
  taken as parameters: \<open>ratio a b\<close> is \<^verbatim>\<open>SequenceMatcher(None, a, b).ratio()\<close>, and
  \<open>repr v\<close> is \<^verbatim>\<open>str(v)\<close> for a float, a list or a dict.
\<close>

record pylib =
  ratio :: "string \<Rightarrow> string \<Rightarrow> rat"
  repr :: "json \<Rightarrow> string"

section \<open>Python string primitives\<close>

text \<open>The class \<^verbatim>\<open>[a-z0-9]\<close> of the regular expression \<^verbatim>\<open>_NON_ALNUM_RE\<close>.\<close>

definition is_alnum :: "char \<Rightarrow> bool" where
  "is_alnum c = (c \<in> set ''abcdefghijklmnopqrstuvwxyz0123456789'')"

text \<open>
  \<^verbatim>\<open>str.lower()\<close>, one character at a time. On U+0080 .. U+00FF Python's result is again a
  single character of that range, hence never in \<^verbatim>\<open>[a-z0-9]\<close>; since the source only ever
  feeds the lowered text to \<^verbatim>\<open>_NON_ALNUM_RE\<close>, those characters are left as they are.
\<close>

definition lower_char :: "char \<Rightarrow> char" where
  "lower_char c =
     (case map_of (zip ''ABCDEFGHIJKLMNOPQRSTUVWXYZ'' ''abcdefghijklmnopqrstuvwxyz'') c of
        None \<Rightarrow> c
      | Some l \<Rightarrow> l)"

definition lower :: "string \<Rightarrow> string" where
  "lower s = map lower_char s"

text \<open>
  The characters \<^verbatim>\<open>str.strip()\<close> and \<^verbatim>\<open>str.split()\<close> treat as whitespace: TAB .. CR,
  FS .. US, space, NEL (U+0085) and NBSP (U+00A0).
\<close>

definition is_space :: "char \<Rightarrow> bool" where
  "is_space c =
     (c \<in> set [CHR 0x09, CHR 0x0A, CHR 0x0B, CHR 0x0C, CHR 0x0D, CHR 0x1C, CHR 0x1D,
                CHR 0x1E, CHR 0x1F, CHR 0x20, CHR 0x85, CHR 0xA0])"

definition strip :: "string \<Rightarrow> string" where
  "strip s = rev (dropWhile is_space (rev (dropWhile is_space s)))"

text \<open>
  \<^verbatim>\<open>str.split()\<close>: the maximal runs of non-whitespace characters. \<open>split_aux cur s\<close> scans
  \<open>s\<close> with the token read so far in \<open>cur\<close>.
\<close>

fun split_aux :: "string \<Rightarrow> string \<Rightarrow> string list" where
  "split_aux cur [] = (if cur = [] then [] else [cur])"
| "split_aux cur (c # cs) =
     (if is_space c then (if cur = [] then split_aux [] cs else cur # split_aux [] cs)
      else split_aux (cur @ [c]) cs)"

definition split :: "string \<Rightarrow> string list" where
  "split s = split_aux [] s"

text \<open>\<^verbatim>\<open>needle in hay\<close> on strings: \<open>needle\<close> occurs as a contiguous block.\<close>

fun contains :: "string \<Rightarrow> string \<Rightarrow> bool" where
  "contains [] needle = (needle = [])"
| "contains (c # cs) needle = (prefix needle (c # cs) \<or> contains cs needle)"

section \<open>Normalizer\<close>

text \<open>
  \<^verbatim>\<open>_NON_ALNUM_RE.sub(rep, s)\<close> replaces every maximal run of characters outside
  \<^verbatim>\<open>[a-z0-9]\<close> by \<open>rep\<close>. \<open>in_run\<close> tells that the previous character belonged to a run
  that has been replaced already.
\<close>

fun sub_non_alnum :: "string \<Rightarrow> bool \<Rightarrow> string \<Rightarrow> string" where
  "sub_non_alnum rep in_run [] = []"
| "sub_non_alnum rep in_run (c # cs) =
     (if is_alnum c then c # sub_non_alnum rep False cs
      else if in_run then sub_non_alnum rep True cs
      else rep @ sub_non_alnum rep True cs)"

definition normalize :: "string \<Rightarrow> string" where
  "normalize text = strip (sub_non_alnum '' '' False (lower text))"

definition compact :: "string \<Rightarrow> string" where
  "compact text = sub_non_alnum [] False (lower text)"

section \<open>Similarity scorer\<close>

text \<open>The loop of \<^verbatim>\<open>_token_match_score\<close> that counts the query tokens found.\<close>

fun count_hits :: "string list \<Rightarrow> string list \<Rightarrow> nat" where
  "count_hits [] c_tokens = 0"
| "count_hits (qt # qts) c_tokens =
     (if list_ex (\<lambda>ct. prefix qt ct \<or> contains ct qt) c_tokens
      then Suc (count_hits qts c_tokens) else count_hits qts c_tokens)"

definition token_match_score :: "string \<Rightarrow> string \<Rightarrow> rat" where
  "token_match_score query candidate =
     (let q_tokens = split (normalize query);
          c_tokens = split (normalize candidate)
      in if q_tokens = [] \<or> c_tokens = [] then 0
         else (of_nat (count_hits q_tokens c_tokens) / of_nat (length q_tokens)) * 100)"

definition bonus_of :: "string \<Rightarrow> string \<Rightarrow> rat" where
  "bonus_of q_comp c_comp =
     (if q_comp \<noteq> [] \<and> c_comp \<noteq> [] then
        (if prefix q_comp c_comp then 12
         else if contains c_comp q_comp then 8
         else if prefix c_comp q_comp then 6
         else 0)
      else 0)"

definition string_similarity_score :: "pylib \<Rightarrow> string \<Rightarrow> string \<Rightarrow> rat" where
  "string_similarity_score L query candidate =
     (let q_norm = normalize query;
          c_norm = normalize candidate
      in if q_norm = [] \<or> c_norm = [] then 0
         else
           let q_comp = compact query;
               c_comp = compact candidate
           in if q_norm = c_norm \<or> (q_comp \<noteq> [] \<and> q_comp = c_comp) then 100
              else
                let ratio_norm = ratio L q_norm c_norm;
                    ratio_comp = (if q_comp \<noteq> [] \<and> c_comp \<noteq> [] then ratio L q_comp c_comp else 0);
                    ratio100 = max ratio_norm ratio_comp * 100;
                    token_score = token_match_score query candidate;
                    bonus = bonus_of q_comp c_comp;
                    score = (11 / 20) * ratio100 + (9 / 20) * token_score + bonus
                in if score < 0 then 0 else if score > 100 then 100 else score)"

section \<open>Python conversions of JSON values\<close>

text \<open>Truth value of an object, as \<^verbatim>\<open>if value\<close>, \<^verbatim>\<open>not value\<close> and \<^verbatim>\<open>value or default\<close> test it.\<close>

fun truthy :: "json \<Rightarrow> bool" where
  "truthy JNull = False"
| "truthy (JBool b) = b"
| "truthy (JInt n) = (n \<noteq> 0)"
| "truthy (JFloat r) = (r \<noteq> 0)"
| "truthy (JStr s) = (s \<noteq> [])"
| "truthy (JList xs) = (xs \<noteq> [])"
| "truthy (JObj d) = (d \<noteq> [])"

definition py_or :: "json \<Rightarrow> json \<Rightarrow> json" where
  "py_or v d = (if truthy v then v else d)"

definition digit_char :: "nat \<Rightarrow> char" where
  "digit_char d = ''0123456789'' ! d"

fun nat_digits :: "nat \<Rightarrow> string" where
  "nat_digits n = (if n < 10 then [digit_char n] else nat_digits (n div 10) @ [digit_char (n mod 10)])"

declare nat_digits.simps [simp del]

text \<open>
  \<^verbatim>\<open>str(v)\<close>. Python's \<^verbatim>\<open>json\<close> decoder cannot produce an integer of more than 4300 decimal
  digits (\<^verbatim>\<open>int()\<close> refuses the literal), so the refusal of \<^verbatim>\<open>str()\<close> on such an integer
  is not a branch here.
\<close>

fun py_str :: "pylib \<Rightarrow> json \<Rightarrow> string" where
  "py_str L JNull = ''None''"
| "py_str L (JBool b) = (if b then ''True'' else ''False'')"
| "py_str L (JInt n) = (if n < 0 then CHR ''-'' # nat_digits (nat (- n)) else nat_digits (nat n))"
| "py_str L (JStr s) = s"
| "py_str L v = repr L v"

text \<open>
  \<^verbatim>\<open>str.isdigit()\<close>: non-empty, and every character is a digit. Below U+0100 the digits
  are \<^verbatim>\<open>0\<close> .. \<^verbatim>\<open>9\<close> and the superscripts two, three and one (U+00B2, U+00B3, U+00B9).
\<close>

definition is_digit_char :: "char \<Rightarrow> bool" where
  "is_digit_char c = (c \<in> set (''0123456789'' @ [CHR 0xB2, CHR 0xB3, CHR 0xB9]))"

definition isdigit :: "string \<Rightarrow> bool" where
  "isdigit s = (s \<noteq> [] \<and> list_all is_digit_char s)"

definition digit_value :: "char \<Rightarrow> int option" where
  "digit_value c = map_of (zip ''0123456789'' [0, 1, 2, 3, 4, 5, 6, 7, 8, 9]) c"

text \<open>
  \<^verbatim>\<open>int(s)\<close> for a string that passed \<^verbatim>\<open>isdigit()\<close>, the only strings the source converts:
  the decimal value when every character is one of \<^verbatim>\<open>0\<close> .. \<^verbatim>\<open>9\<close> and there are at most
  4300 of them (CPython's limit on integer string conversion), \<^verbatim>\<open>ValueError\<close> otherwise.
\<close>

fun decimal_value :: "int \<Rightarrow> string \<Rightarrow> error + int" where
  "decimal_value acc [] = Inr acc"
| "decimal_value acc (c # cs) =
     (case digit_value c of None \<Rightarrow> Inl ValueError | Some d \<Rightarrow> decimal_value (acc * 10 + d) cs)"

definition int_of_str :: "string \<Rightarrow> error + int" where
  "int_of_str s = (if s = [] \<or> length s > 4300 then Inl ValueError else decimal_value 0 s)"

text \<open>\<^verbatim>\<open>int(v)\<close> for the types \<^verbatim>\<open>_get_total\<close> lets through: \<^verbatim>\<open>int\<close> (and \<^verbatim>\<open>bool\<close>), \<^verbatim>\<open>float\<close>, \<^verbatim>\<open>str\<close>.\<close>

fun py_int :: "json \<Rightarrow> error + int" where
  "py_int (JInt n) = Inr n"
| "py_int (JBool b) = Inr (if b then 1 else 0)"
| "py_int (JFloat r) = Inr (if r < 0 then \<lceil>r\<rceil> else \<lfloor>r\<rfloor>)"
| "py_int (JStr s) = int_of_str s"
| "py_int v = Inl ValueError"

text \<open>
  \<^verbatim>\<open>round(x, 1)\<close>: to one decimal place, a tie going to the even neighbour.
\<close>

definition round1 :: "rat \<Rightarrow> rat" where
  "round1 x =
     (let n = \<lfloor>x * 10\<rfloor>;
          f = x * 10 - of_int n
      in if f < 1 / 2 then of_int n / 10
         else if f > 1 / 2 then of_int (n + 1) / 10
         else if even n then of_int n / 10 else of_int (n + 1) / 10)"

section \<open>Reading the response envelope\<close>

definition strip_nones :: "dict \<Rightarrow> dict" where
  "strip_nones d = filter (\<lambda>(k, v). v \<noteq> JNull \<and> v \<noteq> JStr []) d"

definition extract_attributes :: "json \<Rightarrow> dict" where
  "extract_attributes payload =
     (case payload of
        JObj p \<Rightarrow>
          (case dict_get p ''attributes'' of
             JObj attrs \<Rightarrow> attrs
           | _ \<Rightarrow>
             (case dict_get p ''data'' of
                JObj data \<Rightarrow> (case dict_get data ''attributes'' of JObj attrs \<Rightarrow> attrs | _ \<Rightarrow> [])
              | _ \<Rightarrow> []))
      | _ \<Rightarrow> [])"

text \<open>The loop of \<^verbatim>\<open>_extract_list_items\<close> over \<^verbatim>\<open>data\<close>: an item that is no dict is skipped.\<close>

fun collect_items :: "json list \<Rightarrow> dict list" where
  "collect_items [] = []"
| "collect_items (JObj item # rest) =
     (case dict_get item ''attributes'' of JObj attrs \<Rightarrow> attrs | _ \<Rightarrow> item) # collect_items rest"
| "collect_items (_ # rest) = collect_items rest"

definition extract_list_items :: "json \<Rightarrow> dict list" where
  "extract_list_items payload =
     (case payload of
        JObj p \<Rightarrow> (case dict_get p ''data'' of JList data \<Rightarrow> collect_items data | _ \<Rightarrow> [])
      | _ \<Rightarrow> [])"

definition extract_pagination :: "json \<Rightarrow> dict" where
  "extract_pagination payload =
     (case payload of
        JObj p \<Rightarrow>
          (case dict_get p ''meta'' of
             JObj meta \<Rightarrow> (case dict_get meta ''pagination'' of JObj pagination \<Rightarrow> pagination | _ \<Rightarrow> [])
           | _ \<Rightarrow> [])
      | _ \<Rightarrow> [])"

section \<open>The upstream client and the totals\<close>

text \<open>
  \<^verbatim>\<open>client.request("GET", path, query=q)\<close> either returns the decoded payload or raises.
  Within one call of a tool no request is repeated, so a function of the path and the
  query describes any client.
\<close>

type_synonym client = "string \<Rightarrow> dict \<Rightarrow> error + json"

definition page_query :: "int \<Rightarrow> int \<Rightarrow> dict" where
  "page_query page per_page = [(''page'', JInt page), (''per_page'', JInt per_page)]"

text \<open>\<^verbatim>\<open>isinstance(total, (int, float, str))\<close>; a \<^verbatim>\<open>bool\<close> is an \<^verbatim>\<open>int\<close> in Python.\<close>

fun is_int_float_str :: "json \<Rightarrow> bool" where
  "is_int_float_str (JBool b) = True"
| "is_int_float_str (JInt n) = True"
| "is_int_float_str (JFloat r) = True"
| "is_int_float_str (JStr s) = True"
| "is_int_float_str v = False"

definition total_of :: "pylib \<Rightarrow> json \<Rightarrow> error + int" where
  "total_of L payload =
     (let pagination = extract_pagination payload;
          total = dict_get pagination ''total''
      in if is_int_float_str total \<and> isdigit (py_str L total) then py_int total else Inr 0)"




section \<open>Paginator\<close>

text \<open>
  \<^verbatim>\<open>_iter_paginated\<close> is a generator: it sends a request only when its consumer asks for
  the next record, and a consumer that leaves its loop never resumes it. The generator is
  modelled by the sequence of events it would go through if it were drained: a request
  being sent (\<open>Fetch\<close> with the query), a record being yielded with its page number
  (\<open>Item\<close>), the request raising (\<open>Failure\<close>, always last). The consumer walks the
  sequence from the left; the events it does not reach did not happen.
\<close>

datatype event = Fetch dict | Item int dict | Failure error

text \<open>\<^verbatim>\<open>d[k] = v\<close> and \<^verbatim>\<open>d.update(e)\<close> on an insertion-ordered dict.\<close>

definition dict_set :: "dict \<Rightarrow> string \<Rightarrow> json \<Rightarrow> dict" where
  "dict_set d k v =
     (if k \<in> set (map fst d) then map (\<lambda>(k', v'). if k' = k then (k', v) else (k', v')) d
      else d @ [(k, v)])"

definition dict_update :: "dict \<Rightarrow> dict \<Rightarrow> dict" where
  "dict_update d e = foldl (\<lambda>acc (k, v). dict_set acc k v) d e"

definition build_query :: "int \<Rightarrow> int \<Rightarrow> dict option \<Rightarrow> dict" where
  "build_query page per_page base_query =
     (case base_query of
        None \<Rightarrow> page_query page per_page
      | Some b \<Rightarrow> (if b \<noteq> [] then dict_update (page_query page per_page) b
                  else page_query page per_page))"

text \<open>\<^verbatim>\<open>isinstance(v, int)\<close>, with the integer it then compares as; a \<^verbatim>\<open>bool\<close> is an \<^verbatim>\<open>int\<close>.\<close>

fun as_int :: "json \<Rightarrow> int option" where
  "as_int (JInt n) = Some n"
| "as_int (JBool b) = Some (if b then 1 else 0)"
| "as_int v = None"

text \<open>
  The \<^verbatim>\<open>for page in range(1, max_pages + 1)\<close> loop, from \<open>page\<close> on with \<open>n\<close> pages left
  in the range.
\<close>

fun pages_from :: "client \<Rightarrow> string \<Rightarrow> int \<Rightarrow> dict option \<Rightarrow> int \<Rightarrow> nat \<Rightarrow> event list" where
  "pages_from c path per_page base_query page 0 = []"
| "pages_from c path per_page base_query page (Suc n) =
     (let query = build_query page per_page base_query
      in Fetch query #
         (case c path query of
            Inl e \<Rightarrow> [Failure e]
          | Inr payload \<Rightarrow>
              (let items = extract_list_items payload;
                   pagination = extract_pagination payload;
                   total_pages = dict_get pagination ''total_pages''
               in map (Item page) items @
                  (if (case as_int total_pages of Some t \<Rightarrow> page \<ge> t | None \<Rightarrow> False) then []
                   else if items = [] then []
                   else pages_from c path per_page base_query (page + 1) n))))"

definition iter_paginated :: "client \<Rightarrow> string \<Rightarrow> int \<Rightarrow> int \<Rightarrow> dict option \<Rightarrow> event list" where
  "iter_paginated c path per_page max_pages base_query =
     (let per_page = max 1 (min per_page 100);
          max_pages = max 1 max_pages
      in pages_from c path per_page base_query 1 (nat max_pages))"

section \<open>Summarizer\<close>

text \<open>\<^verbatim>\<open>" ".join(parts)\<close>.\<close>

fun join_space :: "string list \<Rightarrow> string" where
  "join_space [] = []"
| "join_space [p] = p"
| "join_space (p # q # rest) = p @ '' '' @ join_space (q # rest)"

text \<open>\<^verbatim>\<open>s[:n]\<close>; a negative \<open>n\<close> counts from the end.\<close>

definition slice_to :: "string \<Rightarrow> int \<Rightarrow> string" where
  "slice_to s n = (if n \<ge> 0 then take (nat n) s else take (length s - nat (- n)) s)"

text \<open>The one-character string U+2026, written here as its three UTF-8 bytes.\<close>

definition ellipsis :: string where
  "ellipsis = [CHR 0xE2, CHR 0x80, CHR 0xA6]"

definition truncate :: "pylib \<Rightarrow> json \<Rightarrow> int \<Rightarrow> json" where
  "truncate L v max_len =
     (case v of
        JNull \<Rightarrow> JNull
      | _ \<Rightarrow> (let s = py_str L v
              in if int (length s) \<le> max_len then JStr s
                 else JStr (slice_to s (max_len - 1) @ ellipsis)))"

definition str_or_none :: "string \<Rightarrow> json" where
  "str_or_none s = (if s = [] then JNull else JStr s)"

definition score_entry :: "rat option \<Rightarrow> json" where
  "score_entry score = (case score of None \<Rightarrow> JNull | Some x \<Rightarrow> JFloat (round1 x))"

definition name_entry :: "string option \<Rightarrow> json" where
  "name_entry matched_on = (case matched_on of None \<Rightarrow> JNull | Some f \<Rightarrow> JStr f)"

definition compact_user :: "pylib \<Rightarrow> dict \<Rightarrow> rat option \<Rightarrow> string option \<Rightarrow> dict" where
  "compact_user L attributes score matched_on =
     (let first = dict_get attributes ''first_name'';
          last = dict_get attributes ''last_name'';
          full_name = join_space (filter (\<lambda>p. p \<noteq> [])
                        [if truthy first then strip (py_str L first) else [],
                         if truthy last then strip (py_str L last) else []])
      in strip_nones
           [(''score'', score_entry score),
            (''matched_on'', name_entry matched_on),
            (''id'', dict_get attributes ''id''),
            (''uuid'', dict_get attributes ''uuid''),
            (''external_id'', dict_get attributes ''external_id''),
            (''username'', dict_get attributes ''username''),
            (''email'', dict_get attributes ''email''),
            (''name'', str_or_none full_name)])"

definition compact_server :: "pylib \<Rightarrow> dict \<Rightarrow> rat option \<Rightarrow> string option \<Rightarrow> dict" where
  "compact_server L attributes score matched_on =
     strip_nones
       [(''score'', score_entry score),
        (''matched_on'', name_entry matched_on),
        (''id'', dict_get attributes ''id''),
        (''identifier'', dict_get attributes ''identifier''),
        (''uuid'', dict_get attributes ''uuid''),
        (''external_id'', dict_get attributes ''external_id''),
        (''name'', dict_get attributes ''name''),
        (''description'',
           (case dict_get attributes ''description'' of
              JStr d \<Rightarrow> truncate L (JStr d) 120
            | _ \<Rightarrow> JNull)),
        (''suspended'', dict_get attributes ''suspended'')]"

section \<open>Ranker\<close>

text \<open>The accumulators of \<^verbatim>\<open>_fuzzy_search\<close>.\<close>

record scan_state =
  candidates_scanned :: nat
  pages_scanned :: "int set"
  scored :: "(rat \<times> dict \<times> string option) list"

definition init_state :: scan_state where
  "init_state = \<lparr>candidates_scanned = 0, pages_scanned = {}, scored = []\<rparr>"

text \<open>The closure \<^verbatim>\<open>consider\<close> (a reserved word here), acting on the list \<^verbatim>\<open>scored\<close>.\<close>

definition consider_match :: "rat \<Rightarrow> rat \<Rightarrow> dict \<Rightarrow> string option
    \<Rightarrow> (rat \<times> dict \<times> string option) list \<Rightarrow> (rat \<times> dict \<times> string option) list" where
  "consider_match min_score score attrs matched_on acc =
     (if score < min_score then acc else acc @ [(score, attrs, matched_on)])"

text \<open>\<^verbatim>\<open>str(v) if v is not None else None\<close>.\<close>

definition str_unless_none :: "pylib \<Rightarrow> json \<Rightarrow> json" where
  "str_unless_none L v = (case v of JNull \<Rightarrow> JNull | _ \<Rightarrow> JStr (py_str L v))"

definition user_fields :: "pylib \<Rightarrow> dict \<Rightarrow> (string \<times> json) list" where
  "user_fields L attrs =
     (let username = dict_get attrs ''username'';
          email = dict_get attrs ''email'';
          first = dict_get attrs ''first_name'';
          last = dict_get attrs ''last_name'';
          full_name = strip (join_space (filter (\<lambda>p. p \<noteq> [])
                        [strip (py_str L (py_or first (JStr []))),
                         strip (py_str L (py_or last (JStr [])))]));
          external_id = dict_get attrs ''external_id'';
          uuid = dict_get attrs ''uuid'';
          user_id = dict_get attrs ''id''
      in [(''username'', username),
          (''email'', email),
          (''name'', str_or_none full_name),
          (''external_id'', str_unless_none L external_id),
          (''uuid'', uuid),
          (''id'', str_unless_none L user_id)])"

definition server_fields :: "pylib \<Rightarrow> dict \<Rightarrow> (string \<times> json) list" where
  "server_fields L attrs =
     (let name = dict_get attrs ''name'';
          identifier = dict_get attrs ''identifier'';
          uuid = dict_get attrs ''uuid'';
          external_id = dict_get attrs ''external_id'';
          server_id = dict_get attrs ''id'';
          description = dict_get attrs ''description''
      in [(''name'', name),
          (''identifier'', identifier),
          (''uuid'', uuid),
          (''external_id'', str_unless_none L external_id),
          (''id'', str_unless_none L server_id),
          (''description'', description)])"

text \<open>
  The loop over \<^verbatim>\<open>fields\<close>, with \<^verbatim>\<open>(best_score, best_field)\<close> as its state: only a strictly
  greater score replaces the best one.
\<close>

fun best_field_of :: "pylib \<Rightarrow> string \<Rightarrow> (string \<times> json) list \<Rightarrow> rat \<times> string option
    \<Rightarrow> rat \<times> string option" where
  "best_field_of L query [] best = best"
| "best_field_of L query ((field_name, v) # rest) (best_score, best_field) =
     (if \<not> truthy v then best_field_of L query rest (best_score, best_field)
      else
        let s = string_similarity_score L query (py_str L v)
        in if s > best_score then best_field_of L query rest (s, Some field_name)
           else best_field_of L query rest (best_score, best_field))"

text \<open>
  One round of the \<^verbatim>\<open>for page, attrs in _iter_paginated(...)\<close> loop. The second component
  of the result tells that the round ended in \<^verbatim>\<open>break\<close>.
\<close>

definition visit :: "pylib \<Rightarrow> string \<Rightarrow> string \<Rightarrow> int \<Rightarrow> rat \<Rightarrow> int \<Rightarrow> dict \<Rightarrow> scan_state
    \<Rightarrow> scan_state \<times> bool" where
  "visit L kind query limit min_score page attrs s =
     (let s1 = s\<lparr>pages_scanned := insert page (pages_scanned s),
                 candidates_scanned := candidates_scanned s + 1\<rparr>
      in if kind = ''user'' then
           (let (best_score, best_field) = best_field_of L query (user_fields L attrs) (0, None);
                s2 = s1\<lparr>scored := consider_match min_score best_score attrs best_field (scored s1)\<rparr>
            in (s2, best_score \<ge> 199 / 2 \<and> int (length (scored s2)) \<ge> limit))
         else if kind = ''server'' then
           (let (best_score, best_field) = best_field_of L query (server_fields L attrs) (0, None);
                s2 = s1\<lparr>scored := consider_match min_score best_score attrs best_field (scored s1)\<rparr>
            in (s2, best_score \<ge> 199 / 2 \<and> int (length (scored s2)) \<ge> limit))
         else (s1, False))"

text \<open>
  The consumer of the generator: \<open>body\<close> is one round of the loop. The result holds the
  queries of the requests that were sent, then either the exception of the client or the
  final accumulators with the way the loop ended (\<open>True\<close>: by \<^verbatim>\<open>break\<close>).
\<close>

fun scan_events :: "(int \<Rightarrow> dict \<Rightarrow> scan_state \<Rightarrow> scan_state \<times> bool) \<Rightarrow> event list \<Rightarrow> scan_state
    \<Rightarrow> dict list \<times> (error + scan_state \<times> bool)" where
  "scan_events body [] s = ([], Inr (s, False))"
| "scan_events body (Fetch q # es) s =
     (case scan_events body es s of (sent, r) \<Rightarrow> (q # sent, r))"
| "scan_events body (Failure e # es) s = ([], Inl e)"
| "scan_events body (Item page attrs # es) s =
     (case body page attrs s of
        (s', True) \<Rightarrow> ([], Inr (s', True))
      | (s', False) \<Rightarrow> scan_events body es s')"

text \<open>
  The part of \<^verbatim>\<open>_fuzzy_search\<close> after the loop. \<^verbatim>\<open>list.sort(key=..., reverse=True)\<close> is a
  stable sort into descending order of the key: \<open>sort_key\<close> (stable as well) on the negated
  score.
\<close>

definition top_matches :: "int \<Rightarrow> (rat \<times> dict \<times> string option) list \<Rightarrow> (rat \<times> dict \<times> string option) list" where
  "top_matches limit acc = take (nat limit) (sort_key (\<lambda>t. - fst t) acc)"

definition summarize :: "pylib \<Rightarrow> string \<Rightarrow> rat \<times> dict \<times> string option \<Rightarrow> dict" where
  "summarize L kind t =
     (case t of (score, attrs, matched_on) \<Rightarrow>
        if kind = ''user'' then compact_user L attrs (Some score) matched_on
        else compact_server L attrs (Some score) matched_on)"

definition finalize :: "pylib \<Rightarrow> string \<Rightarrow> string \<Rightarrow> int \<Rightarrow> scan_state \<Rightarrow> dict" where
  "finalize L kind query limit s =
     strip_nones
       [(''query'', JStr query),
        (''matches'', JList (map (\<lambda>t. JObj (summarize L kind t)) (top_matches limit (scored s)))),
        (''scanned'', JObj [(''items'', JInt (int (candidates_scanned s))),
                            (''pages'', JInt (int (card (pages_scanned s))))])]"

text \<open>
  \<^verbatim>\<open>_fuzzy_search\<close>: the queries of the requests sent to the client, and the exception
  raised or the dict returned.
\<close>

definition fuzzy_search :: "pylib \<Rightarrow> client \<Rightarrow> string \<Rightarrow> string \<Rightarrow> int \<Rightarrow> int \<Rightarrow> int \<Rightarrow> rat \<Rightarrow> string
    \<Rightarrow> dict list \<times> (error + dict)" where
  "fuzzy_search L c path query limit max_pages per_page min_score kind =
     (let query = strip query
      in if query = [] then ([], Inl ValueError)
         else
           let limit = max 1 (min limit 50)
           in case scan_events (visit L kind query limit min_score)
                     (iter_paginated c path per_page max_pages None) init_state of
                (sent, Inl e) \<Rightarrow> (sent, Inl e)
              | (sent, Inr (s, stopped)) \<Rightarrow> (sent, Inr (finalize L kind query limit s)))"

text \<open>The two search tools registered by \<^verbatim>\<open>register_ai_tools\<close>.\<close>

definition ptero_ai_search_users :: "pylib \<Rightarrow> client \<Rightarrow> string \<Rightarrow> int \<Rightarrow> int \<Rightarrow> int \<Rightarrow> rat
    \<Rightarrow> dict list \<times> (error + dict)" where
  "ptero_ai_search_users L c query limit max_pages per_page min_score =
     fuzzy_search L c ''/api/application/users'' query limit max_pages per_page min_score ''user''"

definition ptero_ai_search_servers :: "pylib \<Rightarrow> client \<Rightarrow> string \<Rightarrow> int \<Rightarrow> int \<Rightarrow> int \<Rightarrow> rat
    \<Rightarrow> dict list \<times> (error + dict)" where
  "ptero_ai_search_servers L c query limit max_pages per_page min_score =
     fuzzy_search L c ''/api/application/servers'' query limit max_pages per_page min_score ''server''"

section \<open>A model of the standard library's sequence matcher\<close>

text \<open>
  For concrete runs the parameter \<open>ratio\<close> is instantiated with a model of
  \<^verbatim>\<open>difflib.SequenceMatcher(None, a, b).ratio()\<close>, which follows the library's algorithm.
  No theorem about all inputs below depends on it.

  With \<^verbatim>\<open>isjunk=None\<close> nothing is junk; with \<^verbatim>\<open>autojunk\<close> (the default) and \<open>b\<close> of 200
  elements or more, an element occurring more than \<open>len(b) // 100 + 1\<close> times is
  popular and is left out of the index \<^verbatim>\<open>b2j\<close>.
\<close>

definition popular :: "string \<Rightarrow> char list" where
  "popular b =
     (if length b \<ge> 200 then filter (\<lambda>x. count_list b x > length b div 100 + 1) (remdups b)
      else [])"

text \<open>
  \<^verbatim>\<open>find_longest_match\<close>: \<^verbatim>\<open>j2len\<close> maps \<open>j\<close> to the length of the longest block ending
  at \<open>a[i-1]\<close> and \<open>b[j]\<close>; it is a list here, \<open>0\<close> standing for an absent key.
  \<open>next_row\<close> computes \<^verbatim>\<open>newj2len\<close> for one \<open>i\<close>, and \<open>scan_row\<close> is the update of
  \<^verbatim>\<open>(besti, bestj, bestsize)\<close> in the same inner loop.
\<close>

definition next_row :: "char \<Rightarrow> string \<Rightarrow> char list \<Rightarrow> nat \<Rightarrow> nat \<Rightarrow> nat list \<Rightarrow> nat list" where
  "next_row x b pop blo bhi prev =
     map (\<lambda>j. if blo \<le> j \<and> j < bhi \<and> b ! j = x \<and> x \<notin> set pop
               then (if j = 0 then 0 else prev ! (j - 1)) + 1 else 0)
         [0..<length b]"

definition scan_row :: "nat \<Rightarrow> nat list \<Rightarrow> nat \<times> nat \<times> nat \<Rightarrow> nat \<times> nat \<times> nat" where
  "scan_row i row best =
     foldl (\<lambda>(besti, bestj, bestsize) j.
              let k = row ! j
              in if k > bestsize then (i + 1 - k, j + 1 - k, k) else (besti, bestj, bestsize))
           best [0..<length row]"

definition longest_core :: "string \<Rightarrow> string \<Rightarrow> char list \<Rightarrow> nat \<Rightarrow> nat \<Rightarrow> nat \<Rightarrow> nat
    \<Rightarrow> nat \<times> nat \<times> nat" where
  "longest_core a b pop alo ahi blo bhi =
     snd (foldl (\<lambda>(prev, best) i.
                   let row = next_row (a ! i) b pop blo bhi prev
                   in (row, scan_row i row best))
                (replicate (length b) 0, (alo, blo, 0)) [alo..<ahi])"

text \<open>The two loops that extend the block over matching elements on each end.\<close>

function extend_left :: "string \<Rightarrow> string \<Rightarrow> nat \<Rightarrow> nat \<Rightarrow> nat \<times> nat \<times> nat \<Rightarrow> nat \<times> nat \<times> nat" where
  "extend_left a b alo blo (i, j, k) =
     (if i > alo \<and> j > blo \<and> a ! (i - 1) = b ! (j - 1)
      then extend_left a b alo blo (i - 1, j - 1, k + 1) else (i, j, k))"
  by pat_completeness auto
termination
  by (relation "measure (\<lambda>(a, b, alo, blo, i, j, k). i)") auto

function extend_right :: "string \<Rightarrow> string \<Rightarrow> nat \<Rightarrow> nat \<Rightarrow> nat \<times> nat \<times> nat \<Rightarrow> nat \<times> nat \<times> nat" where
  "extend_right a b ahi bhi (i, j, k) =
     (if i + k < ahi \<and> j + k < bhi \<and> a ! (i + k) = b ! (j + k)
      then extend_right a b ahi bhi (i, j, k + 1) else (i, j, k))"
  by pat_completeness auto
termination
  by (relation "measure (\<lambda>(a, b, ahi, bhi, i, j, k). ahi - (i + k))") auto

declare extend_left.simps [simp del] extend_right.simps [simp del]

definition find_longest_match :: "string \<Rightarrow> string \<Rightarrow> char list \<Rightarrow> nat \<Rightarrow> nat \<Rightarrow> nat \<Rightarrow> nat
    \<Rightarrow> nat \<times> nat \<times> nat" where
  "find_longest_match a b pop alo ahi blo bhi =
     extend_right a b ahi bhi (extend_left a b alo blo (longest_core a b pop alo ahi blo bhi))"

text \<open>
  The sum of the sizes of the blocks \<^verbatim>\<open>get_matching_blocks\<close> collects. The library keeps
  the pending ranges in a queue; the sum does not depend on the order they are taken in.
  The block found always lies within \<open>alo .. ahi\<close>; the test of it in the first branch
  never succeeds and only serves the termination proof.
\<close>

function matched :: "string \<Rightarrow> string \<Rightarrow> char list \<Rightarrow> nat \<Rightarrow> nat \<Rightarrow> nat \<Rightarrow> nat \<Rightarrow> nat" where
  "matched a b pop alo ahi blo bhi =
     (case find_longest_match a b pop alo ahi blo bhi of
        (i, j, k) \<Rightarrow>
          if k = 0 \<or> i < alo \<or> ahi < i + k then 0
          else k
             + (if alo < i \<and> blo < j then matched a b pop alo i blo j else 0)
             + (if i + k < ahi \<and> j + k < bhi then matched a b pop (i + k) ahi (j + k) bhi else 0))"
  by pat_completeness auto
termination
  by (relation "measure (\<lambda>(a, b, pop, alo, ahi, blo, bhi). ahi - alo)") auto

declare matched.simps [simp del]

definition difflib_ratio :: "string \<Rightarrow> string \<Rightarrow> rat" where
  "difflib_ratio a b =
     (if length a + length b = 0 then 1
      else 2 * of_nat (matched a b (popular b) 0 (length a) 0 (length b))
           / of_nat (length a + length b))"

text \<open>
  The library used in the concrete runs below. None of them converts a float, a list or
  a dict to a string, so \<open>repr\<close> is never consulted.
\<close>

definition python :: pylib where
  "python = \<lparr>ratio = difflib_ratio, repr = (\<lambda>v. [])\<rparr>"

section \<open>Vocabulary for the statements\<close>

text \<open>The queries of the requests, and the records with their page numbers, in a sequence of events.\<close>

fun requests_of :: "event list \<Rightarrow> dict list" where
  "requests_of [] = []"
| "requests_of (Fetch q # es) = q # requests_of es"
| "requests_of (_ # es) = requests_of es"

fun items_of :: "event list \<Rightarrow> (int \<times> dict) list" where
  "items_of [] = []"
| "items_of (Item page attrs # es) = (page, attrs) # items_of es"
| "items_of (_ # es) = items_of es"

text \<open>
  The best field score of a record and the field it was found in, as one round of the
  loop of \<^verbatim>\<open>_fuzzy_search\<close> computes them for the two kinds it knows.
\<close>

definition record_score :: "pylib \<Rightarrow> string \<Rightarrow> string \<Rightarrow> dict \<Rightarrow> (rat \<times> string option) option" where
  "record_score L kind query attrs =
     (if kind = ''user'' then Some (best_field_of L query (user_fields L attrs) (0, None))
      else if kind = ''server'' then Some (best_field_of L query (server_fields L attrs) (0, None))
      else None)"

text \<open>What a record adds to the accepted matches: itself, or nothing.\<close>

definition match_of :: "pylib \<Rightarrow> string \<Rightarrow> string \<Rightarrow> rat \<Rightarrow> dict \<Rightarrow> (rat \<times> dict \<times> string option) list" where
  "match_of L kind query min_score attrs =
     (case record_score L kind query attrs of
        None \<Rightarrow> []
      | Some (best_score, best_field) \<Rightarrow>
          if best_score < min_score then [] else [(best_score, attrs, best_field)])"

definition accepted :: "pylib \<Rightarrow> string \<Rightarrow> string \<Rightarrow> rat \<Rightarrow> (int \<times> dict) list
    \<Rightarrow> (rat \<times> dict \<times> string option) list" where
  "accepted L kind query min_score items = concat (map (\<lambda>(page, attrs). match_of L kind query min_score attrs) items)"


section \<open>Inputs of the concrete runs\<close>

text \<open>The characters the normalizer keeps, before case folding: ASCII letters and digits.\<close>

definition ascii_alnum :: "char set" where
  "ascii_alnum = set ''ABCDEFGHIJKLMNOPQRSTUVWXYZabcdefghijklmnopqrstuvwxyz0123456789''"

text \<open>An account record, and a client whose collection holds just that record.\<close>

definition john_smith :: dict where
  "john_smith =
     [(''id'', JInt 7), (''email'', JStr ''js@example.org''),
      (''first_name'', JStr ''John''), (''last_name'', JStr ''Smith'')]"

definition one_record_client :: client where
  "one_record_client path q =
     Inr (JObj [(''data'', JList [JObj [(''object'', JStr ''user''), (''attributes'', JObj john_smith)]]),
                (''meta'', JObj [(''pagination'', JObj [(''total'', JInt 1), (''total_pages'', JInt 1)])])])"



text \<open>
  A client whose every page holds the same two records, one of them nested under
  \<^verbatim>\<open>attributes\<close> and one flat, and declares three pages.
\<close>

definition john_exact :: dict where
  "john_exact = [(''id'', JInt 1), (''username'', JStr ''john'')]"

definition three_pages_client :: client where
  "three_pages_client path q =
     Inr (JObj [(''data'', JList [JObj [(''attributes'', JObj john_exact)], JObj john_smith]),
                (''meta'', JObj [(''pagination'', JObj [(''total'', JInt 6), (''total_pages'', JInt 3)])])])"

text \<open>
  A client whose first page holds one record and a non-record, without any \<^verbatim>\<open>meta\<close>, and
  whose other responses are not JSON at all (the client then returns the body text).
\<close>

definition drifting_client :: client where
  "drifting_client path q =
     (if q = page_query 1 100 then Inr (JObj [(''data'', JList [JObj john_smith, JInt 3])])
      else Inr (JStr ''<html>''))"




section \<open>Properties of the normalizer and the scorer\<close>

lemma lower_char_not_alnum: "c \<notin> ascii_alnum \<Longrightarrow> \<not> is_alnum (lower_char c)"
  by (simp add: lower_char_def is_alnum_def ascii_alnum_def)

lemma sub_non_alnum_none:
  "list_all (\<lambda>x. \<not> is_alnum x) t \<Longrightarrow> sub_non_alnum rep True t = []"
  by (induction t) auto

lemma sub_non_alnum_none_start:
  "list_all (\<lambda>x. \<not> is_alnum x) t \<Longrightarrow> sub_non_alnum rep False t = (if t = [] then [] else rep)"
  by (cases t) (auto simp: sub_non_alnum_none)

lemma strip_space: "strip '' '' = []" "strip [] = []"
  by (simp_all add: strip_def is_space_def)

lemma normalize_no_alnum:
  assumes "set s \<inter> ascii_alnum = {}"
  shows "normalize s = []"
proof -
  have "\<forall>x\<in>set s. \<not> is_alnum (lower_char x)"
    using assms lower_char_not_alnum by blast
  then have "list_all (\<lambda>x. \<not> is_alnum x) (lower s)"
    unfolding lower_def list_all_iff by simp
  then show ?thesis
    by (simp add: normalize_def sub_non_alnum_none_start strip_space)
qed

lemma normalize_Nil: "normalize [] = []"
  by (simp add: normalize_def lower_def strip_space)

lemma score_bounds: "0 \<le> string_similarity_score L q c \<and> string_similarity_score L q c \<le> 100"
  by (simp add: string_similarity_score_def Let_def)

lemma score_empty: "normalize q = [] \<or> normalize c = [] \<Longrightarrow> string_similarity_score L q c = 0"
  by (auto simp add: string_similarity_score_def Let_def)

lemma alnum_not_space: "is_alnum x \<Longrightarrow> \<not> is_space x"
  by (auto simp: is_alnum_def is_space_def)

lemma set_sub_non_alnum_empty_rep:
  "x \<in> set (sub_non_alnum [] b t) \<Longrightarrow> is_alnum x \<and> x \<in> set t"
  by (induction t arbitrary: b) (auto split: if_splits)

lemma set_sub_non_alnum_keeps:
  "is_alnum x \<Longrightarrow> x \<in> set t \<Longrightarrow> x \<in> set (sub_non_alnum rep b t)"
  by (induction t arbitrary: b) auto

lemma set_dropWhile_keeps: "x \<in> set s \<Longrightarrow> \<not> P x \<Longrightarrow> x \<in> set (dropWhile P s)"
  by (induction s) auto

lemma set_strip_keeps: "x \<in> set s \<Longrightarrow> \<not> is_space x \<Longrightarrow> x \<in> set (strip s)"
  by (simp add: strip_def set_dropWhile_keeps)

lemma compact_nonempty_normalize:
  assumes "compact q \<noteq> []"
  shows "normalize q \<noteq> []"
proof -
  from assms obtain x where "x \<in> set (compact q)" by (cases "compact q") auto
  then have x: "is_alnum x" "x \<in> set (lower q)"
    using set_sub_non_alnum_empty_rep unfolding compact_def by blast+
  then have "x \<in> set (normalize q)"
    unfolding normalize_def by (intro set_strip_keeps set_sub_non_alnum_keeps alnum_not_space)
  then show ?thesis by auto
qed

lemma score_exact:
  assumes "(normalize q \<noteq> [] \<and> normalize q = normalize c) \<or> (compact q \<noteq> [] \<and> compact q = compact c)"
  shows "string_similarity_score L q c = 100"
proof -
  have "normalize q \<noteq> []" "normalize c \<noteq> []"
    using assms compact_nonempty_normalize[of q] compact_nonempty_normalize[of c] by auto
  with assms show ?thesis
    unfolding string_similarity_score_def Let_def by auto
qed

text \<open>
  C2. Whatever the two strings (and whatever value the sequence matcher returns), the
  similarity score lies between 0 and 100. It is 0 as soon as the normalized form of the
  query or of the candidate is empty, which is the case of the empty string and of every
  string without an ASCII letter or digit.
\<close>

theorem similarity_score_in_range:
  "0 \<le> string_similarity_score L q c \<and> string_similarity_score L q c \<le> 100
   \<and> (normalize q = [] \<or> normalize c = [] \<longrightarrow> string_similarity_score L q c = 0)
   \<and> (q = [] \<or> c = [] \<or> set q \<inter> ascii_alnum = {} \<or> set c \<inter> ascii_alnum = {}
        \<longrightarrow> string_similarity_score L q c = 0)"
proof -
  have "string_similarity_score L q c = 0"
    if "q = [] \<or> c = [] \<or> set q \<inter> ascii_alnum = {} \<or> set c \<inter> ascii_alnum = {}"
  proof -
    from that have "normalize q = [] \<or> normalize c = []"
      using normalize_no_alnum normalize_Nil by blast
    then show ?thesis by (rule score_empty)
  qed
  then show ?thesis
    using score_bounds[of L q c] score_empty[of q c L] by blast
qed

theorem similarity_score_in_range_witness:
  "set ''?! -'' \<inter> ascii_alnum = {} \<and> normalize ''?! -'' = []
   \<and> string_similarity_score python ''?! -'' ''abc'' = 0
   \<and> string_similarity_score python ''abc'' [] = 0"
proof -
  have h: "set ''?! -'' \<inter> ascii_alnum = {}"
    by (simp add: ascii_alnum_def)
  have n: "normalize ''?! -'' = []"
    by (simp add: normalize_def lower_def lower_char_def is_alnum_def strip_def is_space_def)
  show ?thesis
    using h n similarity_score_in_range[of python "''?! -''" "''abc''"]
      similarity_score_in_range[of python "''abc''" "[]"]
    by blast
qed

text \<open>
  C3, as the spec states it, fails: the normalized forms of two empty strings are equal,
  and their score is 0, not 100.
\<close>

theorem equal_normalized_forms_counterexample:
  "normalize [] = normalize [] \<and> string_similarity_score python [] [] = 0
   \<and> string_similarity_score python [] [] \<noteq> 100"
  by (simp add: score_empty normalize_Nil)

text \<open>
  C3, amended. If the normalized forms of the query and of the candidate are equal and not
  empty, or their compact forms are equal and not empty, the similarity score is exactly
  100. In particular a query whose normalized form is not empty scores 100 against itself.
\<close>

theorem exact_match_scores_100:
  "((normalize q \<noteq> [] \<and> normalize q = normalize c)
      \<or> (compact q \<noteq> [] \<and> compact c \<noteq> [] \<and> compact q = compact c)
     \<longrightarrow> string_similarity_score L q c = 100)
   \<and> (normalize q \<noteq> [] \<longrightarrow> string_similarity_score L q q = 100)"
  using score_exact[of q c L] score_exact[of q q L] by blast

theorem exact_match_scores_100_witness:
  "normalize ''J. Smith'' = normalize ''j  smith!'' \<and> normalize ''J. Smith'' \<noteq> []
   \<and> string_similarity_score python ''J. Smith'' ''j  smith!'' = 100
   \<and> string_similarity_score python ''J. Smith'' ''J. Smith'' = 100"
proof -
  have n: "normalize ''J. Smith'' = ''j smith''" "normalize ''j  smith!'' = ''j smith''"
    by (simp_all add: normalize_def lower_def lower_char_def is_alnum_def strip_def is_space_def)
  show ?thesis
    using n exact_match_scores_100[of "''J. Smith''" "''j  smith!''" python]
      exact_match_scores_100[of "''J. Smith''" "''J. Smith''" python]
    by simp
qed

section \<open>The consumer and the paginator, step by step\<close>

lemma visit_eq:
  "visit L kind q limit ms page attrs s =
     (s\<lparr>pages_scanned := insert page (pages_scanned s),
        candidates_scanned := candidates_scanned s + 1,
        scored := scored s @ match_of L kind q ms attrs\<rparr>,
      (case record_score L kind q attrs of
         None \<Rightarrow> False
       | Some (b, f) \<Rightarrow> b \<ge> 199 / 2 \<and> limit \<le> int (length (scored s @ match_of L kind q ms attrs))))"
  by (auto simp add: visit_def Let_def record_score_def match_of_def consider_match_def split: prod.splits)


lemma items_of_append: "items_of (xs @ ys) = items_of xs @ items_of ys"
  by (induction xs rule: items_of.induct) auto

lemma accepted_append:
  "accepted L kind q ms (xs @ ys) = accepted L kind q ms xs @ accepted L kind q ms ys"
  by (simp add: accepted_def)

text \<open>A scan that consumed a whole sequence without leaving the loop.\<close>

lemma scan_events_through:
  assumes "scan_events body pre s = (sent, Inr (s1, False))"
  shows "scan_events body (pre @ es) s =
           (sent @ fst (scan_events body es s1), snd (scan_events body es s1))"
  using assms
proof (induction pre arbitrary: s sent)
  case Nil
  then show ?case by simp
next
  case (Cons e pre)
  show ?case
  proof (cases e)
    case (Fetch q)
    with Cons.prems obtain sent' where s': "scan_events body pre s = (sent', Inr (s1, False))" "sent = q # sent'"
      by (auto split: prod.splits)
    from Cons.IH[OF s'(1)] s'(2) Fetch show ?thesis by simp
  next
    case (Item page attrs)
    with Cons.prems obtain s2 where s2: "body page attrs s = (s2, False)" "scan_events body pre s2 = (sent, Inr (s1, False))"
      by (auto split: prod.splits bool.splits)
    from Cons.IH[OF s2(2)] s2(1) Item show ?thesis by simp
  next
    case (Failure x)
    with Cons.prems show ?thesis by simp
  qed
qed

text \<open>What a finished scan has consumed, and what it has accumulated from it.\<close>

lemma scan_events_consumed:
  assumes "scan_events (visit L kind q limit ms) es s = (sent, Inr (s', b))"
  shows "\<exists>pre post. es = pre @ post
           \<and> sent = requests_of pre
           \<and> candidates_scanned s' = candidates_scanned s + length (items_of pre)
           \<and> pages_scanned s' = pages_scanned s \<union> fst ` set (items_of pre)
           \<and> scored s' = scored s @ accepted L kind q ms (items_of pre)
           \<and> (if b then \<exists>pre' page attrs. pre = pre' @ [Item page attrs] else post = [])"
  using assms
proof (induction es arbitrary: s sent)
  case Nil
  then show ?case by (auto simp: accepted_def)
next
  case (Cons e es)
  show ?case
  proof (cases e)
    case (Fetch x)
    with Cons.prems obtain sent' where s': "scan_events (visit L kind q limit ms) es s = (sent', Inr (s', b))" "sent = x # sent'"
      by (auto split: prod.splits)
    from Cons.IH[OF s'(1)] obtain pre post where p: "es = pre @ post"
       "sent' = requests_of pre"
       "candidates_scanned s' = candidates_scanned s + length (items_of pre)"
       "pages_scanned s' = pages_scanned s \<union> fst ` set (items_of pre)"
       "scored s' = scored s @ accepted L kind q ms (items_of pre)"
       "if b then \<exists>pre' page attrs. pre = pre' @ [Item page attrs] else post = []"
      by blast
    have "if b then \<exists>pre' page attrs. Fetch x # pre = pre' @ [Item page attrs] else post = []"
      using p(6) by (cases b) (auto intro: exI[of _ "Fetch x # _"])
    with p s'(2) Fetch show ?thesis
      by (intro exI[of _ "Fetch x # pre"] exI[of _ post]) simp
  next
    case (Item page attrs)
    obtain s2 b2 where v: "visit L kind q limit ms page attrs s = (s2, b2)" by (cases "visit L kind q limit ms page attrs s")
    have s2: "candidates_scanned s2 = candidates_scanned s + 1"
       "pages_scanned s2 = insert page (pages_scanned s)"
       "scored s2 = scored s @ match_of L kind q ms attrs"
      using v unfolding visit_eq by auto
    show ?thesis
    proof (cases b2)
      case True
      with Cons.prems Item v have "sent = []" "s' = s2" "b" by auto
      with s2 Item show ?thesis
        by (intro exI[of _ "[Item page attrs]"] exI[of _ es]) (simp add: accepted_def)
    next
      case False
      with Cons.prems Item v have r: "scan_events (visit L kind q limit ms) es s2 = (sent, Inr (s', b))" by simp
      from Cons.IH[OF r] obtain pre post where p: "es = pre @ post"
       "sent = requests_of pre"
       "candidates_scanned s' = candidates_scanned s2 + length (items_of pre)"
       "pages_scanned s' = pages_scanned s2 \<union> fst ` set (items_of pre)"
       "scored s' = scored s2 @ accepted L kind q ms (items_of pre)"
       "if b then \<exists>pre' page attrs. pre = pre' @ [Item page attrs] else post = []"
        by blast
      have "if b then \<exists>pre' page' attrs'. Item page attrs # pre = pre' @ [Item page' attrs'] else post = []"
        using p(6) by (cases b) (auto intro: exI[of _ "Item page attrs # _"])
      with p s2 Item show ?thesis
        by (intro exI[of _ "Item page attrs # pre"] exI[of _ post]) (simp add: accepted_def)
    qed
  next
    case (Failure x)
    with Cons.prems show ?thesis by simp
  qed
qed









lemma finalize_eq:
  assumes "query \<noteq> []"
  shows "finalize L kind query limit s =
       [(''query'', JStr query),
        (''matches'', JList (map (\<lambda>t. JObj (summarize L kind t)) (top_matches limit (scored s)))),
        (''scanned'', JObj [(''items'', JInt (int (candidates_scanned s))),
                            (''pages'', JInt (int (card (pages_scanned s))))])]"
  using assms by (simp add: finalize_def strip_nones_def)

lemma finalize_get:
  assumes "query \<noteq> []"
  shows "dict_get (finalize L kind query limit s) ''matches''
           = JList (map (\<lambda>t. JObj (summarize L kind t)) (top_matches limit (scored s)))"
    and "dict_get (finalize L kind query limit s) ''scanned''
           = JObj [(''items'', JInt (int (candidates_scanned s))),
                   (''pages'', JInt (int (card (pages_scanned s))))]"
  unfolding finalize_eq[OF assms] by (simp_all add: dict_get_def)

lemma init_state_fields:
  "candidates_scanned init_state = 0" "pages_scanned init_state = {}" "scored init_state = []"
  by (simp_all add: init_state_def)

text \<open>A search that returns: what the scan consumed and what it handed to the final part.\<close>

lemma fuzzy_search_result:
  assumes "fuzzy_search L c path query limit max_pages per_page min_score kind = (sent, Inr out)"
  obtains pre post s where
    "strip query \<noteq> []"
    "iter_paginated c path per_page max_pages None = pre @ post"
    "post = [] \<or> (\<exists>pre' page attrs. pre = pre' @ [Item page attrs])"
    "sent = requests_of pre"
    "candidates_scanned s = length (items_of pre)"
    "pages_scanned s = fst ` set (items_of pre)"
    "scored s = accepted L kind (strip query) min_score (items_of pre)"
    "out = finalize L kind (strip query) (max 1 (min limit 50)) s"
proof -
  let ?q = "strip query" and ?lim = "max 1 (min limit 50)"
  let ?r = "scan_events (visit L kind ?q ?lim min_score) (iter_paginated c path per_page max_pages None) init_state"
  have q: "?q \<noteq> []" using assms by (auto simp add: fuzzy_search_def Let_def)
  obtain sent' r where r: "?r = (sent', r)" by (cases ?r)
  from assms q r obtain s b where sb: "r = Inr (s, b)" "sent' = sent" "out = finalize L kind ?q ?lim s"
    by (auto simp add: fuzzy_search_def Let_def split: sum.splits)
  from r sb have "?r = (sent, Inr (s, b))" by simp
  from scan_events_consumed[OF this] obtain pre post where p:
    "iter_paginated c path per_page max_pages None = pre @ post"
    "sent = requests_of pre"
    "candidates_scanned s = candidates_scanned init_state + length (items_of pre)"
    "pages_scanned s = pages_scanned init_state \<union> fst ` set (items_of pre)"
    "scored s = scored init_state @ accepted L kind ?q min_score (items_of pre)"
    "if b then \<exists>pre' page attrs. pre = pre' @ [Item page attrs] else post = []"
    by blast
  have e: "post = [] \<or> (\<exists>pre' page attrs. pre = pre' @ [Item page attrs])"
    using p(6) by (cases b) auto
  show thesis
    using that[OF q p(1) e p(2) _ _ _ sb(3)] p(3,4,5) unfolding init_state_fields by simp
qed

section \<open>The longest match lies within the range searched\<close>

lemma foldl_invariant:
  assumes "P s" and "\<And>s x. x \<in> set xs \<Longrightarrow> P s \<Longrightarrow> P (f s x)"
  shows "P (foldl f s xs)"
  using assms by (induction xs arbitrary: s) auto

lemma next_row_bound:
  assumes "length prev = length b" "\<forall>j<length b. prev ! j \<le> n"
  shows "length (next_row x b pop blo bhi prev) = length b
     \<and> (\<forall>j<length b. next_row x b pop blo bhi prev ! j \<le> Suc n)"
  using assms by (auto simp add: next_row_def)

lemma scan_row_bound:
  assumes "\<forall>j<length row. row ! j \<le> Suc i - alo" "alo \<le> i"
    and "best = (bi, bj, bk)" "alo \<le> bi" "bi + bk \<le> Suc i"
  shows "\<exists>ci (cj::nat) ck. scan_row i row best = (ci, cj, ck) \<and> alo \<le> ci \<and> ci + ck \<le> Suc i"
proof -
  let ?P = "\<lambda>s. \<exists>ci (cj::nat) ck. s = (ci, cj, ck) \<and> alo \<le> ci \<and> ci + ck \<le> Suc i"
  have "?P (scan_row i row best)"
    unfolding scan_row_def
  proof (rule foldl_invariant[where P = ?P])
    show "?P best" using assms(3,4,5) by simp
  next
    fix s j
    assume j: "j \<in> set [0..<length row]" and s: "?P s"
    from s obtain ci cj ck where c: "s = (ci, cj, ck)" "alo \<le> ci" "ci + ck \<le> Suc i" by blast
    from j assms(1) have r: "row ! j \<le> Suc i - alo" by simp
    show "?P ((\<lambda>(besti, bestj, bestsize) j.
              let k = row ! j
              in if k > bestsize then (i + 1 - k, j + 1 - k, k) else (besti, bestj, bestsize)) s j)"
      using c r assms(2) by (auto simp add: Let_def)
  qed
  then show ?thesis .
qed

lemma longest_core_bounds:
  assumes "alo \<le> ahi"
  shows "\<exists>i j k. longest_core a b pop alo ahi blo bhi = (i, j, k) \<and> alo \<le> i \<and> i + k \<le> ahi"
proof -
  let ?step = "\<lambda>(prev, best) i.
                   let row = next_row (a ! i) b pop blo bhi prev
                   in (row, scan_row i row best)"
  let ?init = "(replicate (length b) (0::nat), (alo, blo, 0::nat))"
  let ?I = "\<lambda>n s. \<exists>row bi bj bk. s = (row, (bi, bj, bk)) \<and> length row = length b
              \<and> (\<forall>j<length b. row ! j \<le> n - alo) \<and> alo \<le> bi \<and> bi + bk \<le> n"
  have "?I ahi (foldl ?step ?init [alo..<ahi])"
    using assms
  proof (induction ahi)
    case 0
    then show ?case by simp
  next
    case (Suc ahi)
    show ?case
    proof (cases "alo \<le> ahi")
      case False
      with Suc.prems have "alo = Suc ahi" by simp
      then show ?thesis by simp
    next
      case True
      from Suc.IH[OF True] obtain row bi bj bk where s:
        "foldl ?step ?init [alo..<ahi] = (row, (bi, bj, bk))" "length row = length b"
        "\<forall>j<length b. row ! j \<le> ahi - alo" "alo \<le> bi" "bi + bk \<le> ahi"
        by blast
      let ?row = "next_row (a ! ahi) b pop blo bhi row"
      from next_row_bound[OF s(2,3)] have r: "length ?row = length b" "\<forall>j<length b. ?row ! j \<le> Suc (ahi - alo)"
        by blast+
      have r': "\<forall>j<length ?row. ?row ! j \<le> Suc ahi - alo"
        using r True by (simp add: Suc_diff_le)
      from s(5) have "bi + bk \<le> Suc ahi" by simp
      from scan_row_bound[OF r' True refl s(4) this] obtain ci cj ck where
        c: "scan_row ahi ?row (bi, bj, bk) = (ci, cj, ck)" "alo \<le> ci" "ci + ck \<le> Suc ahi"
        by blast
      have "foldl ?step ?init [alo..<Suc ahi] = (?row, (ci, cj, ck))"
        using True s(1) c(1) by (simp add: Let_def)
      with r r' c(2,3) show ?thesis by simp
    qed
  qed
  then show ?thesis
    unfolding longest_core_def by auto
qed

lemma extend_left_bounds:
  "alo \<le> i \<Longrightarrow> extend_left a b alo blo (i, j, k) = (i', j', k') \<Longrightarrow> alo \<le> i' \<and> i' + k' = i + k"
proof (induction a b alo blo "(i, j, k)" arbitrary: i j k rule: extend_left.induct)
  case (1 a b alo blo i j k)
  show ?case
  proof (cases "i > alo \<and> j > blo \<and> a ! (i - 1) = b ! (j - 1)")
    case True
    with "1.prems"(2) have e: "extend_left a b alo blo (i - 1, j - 1, k + 1) = (i', j', k')"
      by (simp add: extend_left.simps[of a b alo blo i j k])
    from True have "alo \<le> i - 1" by linarith
    from "1.hyps"[OF True this e] True show ?thesis by simp
  next
    case False
    with "1.prems" show ?thesis
      by (auto simp add: extend_left.simps[of a b alo blo i j k] split: if_splits)
  qed
qed

lemma extend_right_bounds:
  "i + k \<le> ahi \<Longrightarrow> extend_right a b ahi bhi (i, j, k) = (i', j', k') \<Longrightarrow> i' = i \<and> i' + k' \<le> ahi"
proof (induction a b ahi bhi "(i, j, k)" arbitrary: i j k rule: extend_right.induct)
  case (1 a b ahi bhi i j k)
  show ?case
  proof (cases "i + k < ahi \<and> j + k < bhi \<and> a ! (i + k) = b ! (j + k)")
    case True
    with "1.prems"(2) have e: "extend_right a b ahi bhi (i, j, k + 1) = (i', j', k')"
      by (simp add: extend_right.simps[of a b ahi bhi i j k])
    from True have "i + (k + 1) \<le> ahi" by linarith
    from "1.hyps"[OF True this e] show ?thesis by simp
  next
    case False
    with "1.prems" show ?thesis
      by (simp add: extend_right.simps[of a b ahi bhi i j k])
  qed
qed

text \<open>The block found lies within the range of \<open>a\<close> searched, so the test of it in \<open>matched\<close> never succeeds.\<close>

lemma find_longest_match_bounds:
  assumes "alo \<le> ahi" "find_longest_match a b pop alo ahi blo bhi = (i, j, k)"
  shows "alo \<le> i \<and> i + k \<le> ahi"
proof -
  from longest_core_bounds[OF assms(1)] obtain i0 j0 k0 where
    c: "longest_core a b pop alo ahi blo bhi = (i0, j0, k0)" "alo \<le> i0" "i0 + k0 \<le> ahi"
    by blast
  obtain i1 j1 k1 where l: "extend_left a b alo blo (i0, j0, k0) = (i1, j1, k1)"
    by (cases "extend_left a b alo blo (i0, j0, k0)")
  from extend_left_bounds[OF c(2) l] c(3) have b1: "alo \<le> i1" "i1 + k1 \<le> ahi" by simp_all
  from assms(2) c(1) l have "extend_right a b ahi bhi (i1, j1, k1) = (i, j, k)"
    by (simp add: find_longest_match_def)
  from extend_right_bounds[OF b1(2) this] b1(1) show ?thesis by simp
qed

section \<open>Rejecting a blank query\<close>

lemma dropWhile_all: "list_all P s \<Longrightarrow> dropWhile P s = []"
  by (induction s) auto

lemma strip_empty_iff: "(strip s = []) = list_all is_space s"
proof
  assume "list_all is_space s"
  then show "strip s = []" by (simp add: strip_def dropWhile_all)
next
  assume a: "strip s = []"
  show "list_all is_space s"
  proof (rule ccontr)
    assume "\<not> list_all is_space s"
    then obtain x where x: "x \<in> set s" "\<not> is_space x" by (auto simp: list_all_iff)
    then have "x \<in> set (strip s)" by (rule set_strip_keeps)
    with a show False by simp
  qed
qed

text \<open>
  C4. A query that is empty, or is all whitespace (so that nothing is left of it after
  trimming), makes the search raise \<open>ValueError\<close> with no request sent to the client
  (the list of requests is empty) and no record scanned.
\<close>

theorem blank_query_rejected:
  "(strip query = []) = list_all is_space query
   \<and> (strip query = [] \<longrightarrow>
        fuzzy_search L c path query limit max_pages per_page min_score kind = ([], Inl ValueError)
        \<and> ptero_ai_search_users L c query limit max_pages per_page min_score = ([], Inl ValueError)
        \<and> ptero_ai_search_servers L c query limit max_pages per_page min_score = ([], Inl ValueError))"
  by (simp add: strip_empty_iff fuzzy_search_def ptero_ai_search_users_def ptero_ai_search_servers_def)

theorem blank_query_rejected_witness:
  "strip [CHR 0x20, CHR 0x09, CHR 0x0A] = []
   \<and> ptero_ai_search_users python one_record_client [CHR 0x20, CHR 0x09, CHR 0x0A] 10 5 100 55
       = ([], Inl ValueError)
   \<and> ptero_ai_search_servers python one_record_client [] 10 5 100 55 = ([], Inl ValueError)"
proof -
  have h: "strip [CHR 0x20, CHR 0x09, CHR 0x0A] = []" "strip [] = []"
    by (simp_all add: strip_def is_space_def)
  show ?thesis
    using h blank_query_rejected[of "[CHR 0x20, CHR 0x09, CHR 0x0A]" python one_record_client _ 10 5 100 55]
      blank_query_rejected[of "[]" python one_record_client _ 10 5 100 55]
    by blast
qed

section \<open>A scenario of the scorer\<close>

lemmas string_eval = normalize_def compact_def lower_def lower_char_def is_alnum_def strip_def
  is_space_def split_def token_match_score_def bonus_of_def

lemma john_token_score: "token_match_score ''john'' ''John Smith'' = 100"
  by (simp add: string_eval)

lemma john_forms:
  "normalize ''john'' = ''john''" "normalize ''John Smith'' = ''john smith''"
  "compact ''john'' = ''john''" "compact ''John Smith'' = ''johnsmith''"
  by (simp_all add: string_eval)

lemma john_bonus: "bonus_of ''john'' ''johnsmith'' = 12"
  by (simp add: bonus_of_def)

lemma john_score_ge:
  assumes "\<forall>a b. 0 \<le> ratio L a b"
  shows "57 \<le> string_similarity_score L ''john'' ''John Smith''"
proof -
  have r: "0 \<le> max (ratio L ''john'' ''john smith'') (ratio L ''john'' ''johnsmith'')"
    using assms by (simp add: max_def)
  show ?thesis
    unfolding string_similarity_score_def Let_def john_forms john_token_score john_bonus
    using r by simp
qed

lemma visit_scored_user:
  "best_field_of L q (user_fields L attrs) (0, None) = (b, bf) \<Longrightarrow>
   scored (fst (visit L ''user'' q limit ms page attrs s)) = consider_match ms b attrs bf (scored s)"
  by (simp add: visit_def Let_def)

lemma visit_scored_server:
  "best_field_of L q (server_fields L attrs) (0, None) = (b, bf) \<Longrightarrow>
   scored (fst (visit L ''server'' q limit ms page attrs s)) = consider_match ms b attrs bf (scored s)"
  by (simp add: visit_def Let_def)

text \<open>
  C7. Provided the sequence matcher returns no negative ratio: the query \<^verbatim>\<open>john\<close> has the
  token-overlap score 100 against \<^verbatim>\<open>John Smith\<close>, its similarity score is above 55, and a
  record (of either kind) whose best field score is that score is appended to the
  accepted matches when the threshold is the default 55.
\<close>

theorem john_matches_john_smith:
  assumes "\<forall>a b. 0 \<le> ratio L a b"
  shows "token_match_score ''john'' ''John Smith'' = 100
    \<and> 55 < string_similarity_score L ''john'' ''John Smith''
    \<and> ((kind = ''user'' \<and> best_field_of L ''john'' (user_fields L attrs) (0, None)
             = (string_similarity_score L ''john'' ''John Smith'', bf)
         \<or> kind = ''server'' \<and> best_field_of L ''john'' (server_fields L attrs) (0, None)
             = (string_similarity_score L ''john'' ''John Smith'', bf))
        \<longrightarrow> scored (fst (visit L kind ''john'' limit 55 page attrs s))
            = scored s @ [(string_similarity_score L ''john'' ''John Smith'', attrs, bf)])"
proof -
  have ge: "57 \<le> string_similarity_score L ''john'' ''John Smith''"
    using assms by (rule john_score_ge)
  then have c: "consider_match 55 (string_similarity_score L ''john'' ''John Smith'') attrs bf acc
      = acc @ [(string_similarity_score L ''john'' ''John Smith'', attrs, bf)]" for acc
    by (simp add: consider_match_def)
  show ?thesis
    using ge john_token_score c visit_scored_user[of L "''john''" attrs _ bf limit 55 page s]
      visit_scored_server[of L "''john''" attrs _ bf limit 55 page s]
    by auto
qed

theorem john_matches_john_smith_witness:
  "token_match_score ''john'' ''John Smith'' = 100
   \<and> string_similarity_score python ''john'' ''John Smith'' = 1181 / 13
   \<and> scored (fst (visit python ''user'' ''john'' 10 55 1 john_smith init_state))
       = [(1181 / 13, john_smith, Some ''name'')]"
proof -
  have nonneg: "\<forall>a b. 0 \<le> ratio python a b"
    by (simp add: python_def difflib_ratio_def)
  have v: "string_similarity_score python ''john'' ''John Smith'' = 1181 / 13"
    by code_simp
  have b: "best_field_of python ''john'' (user_fields python john_smith) (0, None)
      = (string_similarity_score python ''john'' ''John Smith'', Some ''name'')"
    by code_simp
  have i: "scored init_state = []"
    by (simp add: init_state_def)
  show ?thesis
    using john_matches_john_smith[OF nonneg, of "''user''" john_smith "Some ''name''" 10 1 init_state] b v i
    by simp
qed

section \<open>Totals\<close>













text \<open>
  Outside C9 as amended: a string of digit characters that is no decimal numeral, here the
  superscript two alone, passes \<^verbatim>\<open>isdigit()\<close> and makes \<^verbatim>\<open>int()\<close> raise.
\<close>

lemma refused_digit_string_raises:
  assumes "dict_get (extract_pagination payload) ''total'' = JStr [CHR 0xB2]"
  shows "total_of L payload = Inl ValueError"
  using assms
  by (simp add: total_of_def isdigit_def is_digit_char_def int_of_str_def digit_value_def)





section \<open>The pages the paginator requests\<close>


lemma clamp_bounds:
  "1 \<le> max 1 (min (x::int) 100) \<and> max 1 (min x 100) \<le> 100 \<and> 1 \<le> max 1 (min x 50) \<and> max 1 (min x 50) \<le> 50"
  by auto




section \<open>Tolerant reading of the envelope\<close>









section \<open>Scan statistics\<close>

text \<open>
  C10. When a search returns, the events of the paginator split into those the scan
  consumed and the rest (the scan ends at the end of the sequence or right after a
  record); the requests sent are those of the consumed part; \<^verbatim>\<open>scanned.items\<close> is the
  number of records in the consumed part, whether accepted or not, and \<^verbatim>\<open>scanned.pages\<close>
  is the number of distinct page numbers these records came with. A page that was
  requested but yielded no record is not among them.
\<close>

theorem scan_statistics:
  assumes "fuzzy_search L c path query limit max_pages per_page min_score kind = (sent, Inr out)"
  shows "\<exists>pre post. iter_paginated c path per_page max_pages None = pre @ post
      \<and> (post = [] \<or> (\<exists>pre' page attrs. pre = pre' @ [Item page attrs]))
      \<and> sent = requests_of pre
      \<and> dict_get out ''scanned''
          = JObj [(''items'', JInt (int (length (items_of pre)))),
                  (''pages'', JInt (int (card (fst ` set (items_of pre)))))]
      \<and> (\<forall>page. (\<forall>attrs. Item page attrs \<notin> set pre) \<longrightarrow> page \<notin> fst ` set (items_of pre))"
proof -
  from assms obtain pre post s where p:
    "strip query \<noteq> []"
    "iter_paginated c path per_page max_pages None = pre @ post"
    "post = [] \<or> (\<exists>pre' page attrs. pre = pre' @ [Item page attrs])"
    "sent = requests_of pre"
    "candidates_scanned s = length (items_of pre)"
    "pages_scanned s = fst ` set (items_of pre)"
    "scored s = accepted L kind (strip query) min_score (items_of pre)"
    "out = finalize L kind (strip query) (max 1 (min limit 50)) s"
    by (rule fuzzy_search_result)
  have i: "(page, attrs) \<in> set (items_of es) \<Longrightarrow> Item page attrs \<in> set es" for page attrs es
    by (induction es rule: items_of.induct) auto
  have n: "\<forall>page. (\<forall>attrs. Item page attrs \<notin> set pre) \<longrightarrow> page \<notin> fst ` set (items_of pre)"
    using i by fastforce
  have g: "dict_get out ''scanned''
          = JObj [(''items'', JInt (int (length (items_of pre)))),
                  (''pages'', JInt (int (card (fst ` set (items_of pre)))))]"
    unfolding p(8) finalize_get(2)[OF p(1)] p(5) p(6) by simp
  show ?thesis
  proof (intro exI conjI)
    show "iter_paginated c path per_page max_pages None = pre @ post" by (rule p(2))
    show "post = [] \<or> (\<exists>pre' page attrs. pre = pre' @ [Item page attrs])" by (rule p(3))
    show "sent = requests_of pre" by (rule p(4))
    show "dict_get out ''scanned''
          = JObj [(''items'', JInt (int (length (items_of pre)))),
                  (''pages'', JInt (int (card (fst ` set (items_of pre)))))]" by (rule g)
    show "\<forall>page. (\<forall>attrs. Item page attrs \<notin> set pre) \<longrightarrow> page \<notin> fst ` set (items_of pre)" by (rule n)
  qed
qed

theorem scan_statistics_witness:
  "fuzzy_search python drifting_client ''/api/application/users'' ''smith'' 10 5 100 95 ''user''
     = ([page_query 1 100, page_query 2 100],
        Inr [(''query'', JStr ''smith''), (''matches'', JList []),
             (''scanned'', JObj [(''items'', JInt 1), (''pages'', JInt 1)])])
   \<and> (\<exists>pre post. iter_paginated drifting_client ''/api/application/users'' 100 5 None = pre @ post
         \<and> [page_query 1 100, page_query 2 100] = requests_of pre
         \<and> length (items_of pre) = 1 \<and> card (fst ` set (items_of pre)) = 1)"
proof -
  have ev: "fuzzy_search python drifting_client ''/api/application/users'' ''smith'' 10 5 100 95 ''user''
     = ([page_query 1 100, page_query 2 100],
        Inr [(''query'', JStr ''smith''), (''matches'', JList []),
             (''scanned'', JObj [(''items'', JInt 1), (''pages'', JInt 1)])])"
    by code_simp
  have g: "dict_get [(''query'', JStr ''smith''), (''matches'', JList []),
             (''scanned'', JObj [(''items'', JInt 1), (''pages'', JInt 1)])] ''scanned''
        = JObj [(''items'', JInt 1), (''pages'', JInt 1)]"
    by (simp add: dict_get_def)
  from scan_statistics[OF ev] obtain pre post where p:
    "iter_paginated drifting_client ''/api/application/users'' 100 5 None = pre @ post"
    "[page_query 1 100, page_query 2 100] = requests_of pre"
    "dict_get [(''query'', JStr ''smith''), (''matches'', JList []),
             (''scanned'', JObj [(''items'', JInt 1), (''pages'', JInt 1)])] ''scanned''
          = JObj [(''items'', JInt (int (length (items_of pre)))),
                  (''pages'', JInt (int (card (fst ` set (items_of pre)))))]"
    by (elim exE conjE)
  have "\<exists>pre post. iter_paginated drifting_client ''/api/application/users'' 100 5 None = pre @ post
         \<and> [page_query 1 100, page_query 2 100] = requests_of pre
         \<and> length (items_of pre) = 1 \<and> card (fst ` set (items_of pre)) = 1"
  proof (intro exI conjI)
    show "iter_paginated drifting_client ''/api/application/users'' 100 5 None = pre @ post" by (rule p(1))
    show "[page_query 1 100, page_query 2 100] = requests_of pre" by (rule p(2))
    show "length (items_of pre) = 1" using p(3) unfolding g by simp
    show "card (fst ` set (items_of pre)) = 1" using p(3) unfolding g by simp
  qed
  with ev show ?thesis by (rule conjI)
qed

section \<open>Early termination\<close>

text \<open>
  C6. Suppose the scan has consumed the events \<open>pre\<close> without leaving its loop and the
  next event is a record whose best field score is at least 99.5, and that the accepted
  matches, this record included if it is accepted, are at least as many as the clamped
  limit. Then the search returns with the requests of \<open>pre\<close> only: whatever follows the
  record (\<open>post\<close>) is neither requested nor scanned. Its matches are the accepted
  matches up to this record, sorted by descending score and cut to the limit, and its
  statistics count the records up to this one.
\<close>

theorem early_stop:
  assumes "strip query \<noteq> []"
    and "iter_paginated c path per_page max_pages None = pre @ Item page attrs # post"
    and "scan_events (visit L kind (strip query) (max 1 (min limit 50)) min_score) pre init_state
           = (sent, Inr (s, False))"
    and "record_score L kind (strip query) attrs = Some (best_score, best_field)"
    and "199 / 2 \<le> best_score"
    and "max 1 (min limit 50)
           \<le> int (length (accepted L kind (strip query) min_score (items_of (pre @ [Item page attrs]))))"
  shows "\<exists>out. fuzzy_search L c path query limit max_pages per_page min_score kind = (requests_of pre, Inr out)
      \<and> dict_get out ''matches''
          = JList (map (\<lambda>t. JObj (summarize L kind t))
               (take (nat (max 1 (min limit 50)))
                  (sort_key (\<lambda>t. - fst t)
                     (accepted L kind (strip query) min_score (items_of (pre @ [Item page attrs]))))))
      \<and> dict_get out ''scanned''
          = JObj [(''items'', JInt (int (length (items_of (pre @ [Item page attrs]))))),
                  (''pages'', JInt (int (card (fst ` set (items_of (pre @ [Item page attrs]))))))]"
proof -
  let ?q = "strip query" and ?lim = "max 1 (min limit 50)"
  let ?body = "visit L kind ?q ?lim min_score"
  let ?items = "items_of (pre @ [Item page attrs])"
  from scan_events_consumed[OF assms(3)] obtain pre' post' where p:
    "pre = pre' @ post'" "sent = requests_of pre'"
    "candidates_scanned s = candidates_scanned init_state + length (items_of pre')"
    "pages_scanned s = pages_scanned init_state \<union> fst ` set (items_of pre')"
    "scored s = scored init_state @ accepted L kind ?q min_score (items_of pre')"
    "post' = []"
    by auto
  from p have s: "sent = requests_of pre" "candidates_scanned s = length (items_of pre)"
    "pages_scanned s = fst ` set (items_of pre)" "scored s = accepted L kind ?q min_score (items_of pre)"
    by (simp_all add: init_state_fields)
  have acc: "scored s @ match_of L kind ?q min_score attrs = accepted L kind ?q min_score ?items"
    by (simp add: s(4) items_of_append accepted_def)
  obtain s' where s': "s' = s\<lparr>pages_scanned := insert page (pages_scanned s),
        candidates_scanned := candidates_scanned s + 1,
        scored := scored s @ match_of L kind ?q min_score attrs\<rparr>" by simp
  have v: "?body page attrs s = (s', True)"
    unfolding visit_eq s' using assms(4,5,6) acc by simp
  have "scan_events ?body (Item page attrs # post) s = ([], Inr (s', True))"
    using v by simp
  with scan_events_through[OF assms(3), of "Item page attrs # post"]
  have "scan_events ?body (iter_paginated c path per_page max_pages None) init_state = (sent, Inr (s', True))"
    unfolding assms(2) by simp
  then have f: "fuzzy_search L c path query limit max_pages per_page min_score kind
      = (requests_of pre, Inr (finalize L kind ?q ?lim s'))"
    using assms(1) s(1) by (simp add: fuzzy_search_def Let_def)
  have m: "top_matches ?lim (scored s') = take (nat ?lim) (sort_key (\<lambda>t. - fst t) (accepted L kind ?q min_score ?items))"
    unfolding top_matches_def s' using acc by simp
  have n: "candidates_scanned s' = length ?items" "pages_scanned s' = fst ` set ?items"
    unfolding s' by (simp_all add: s(2,3) items_of_append)
  show ?thesis
  proof (intro exI conjI)
    show "fuzzy_search L c path query limit max_pages per_page min_score kind
      = (requests_of pre, Inr (finalize L kind ?q ?lim s'))" by (rule f)
    show "dict_get (finalize L kind ?q ?lim s') ''matches''
          = JList (map (\<lambda>t. JObj (summarize L kind t))
               (take (nat ?lim) (sort_key (\<lambda>t. - fst t) (accepted L kind ?q min_score ?items))))"
      unfolding finalize_get(1)[OF assms(1)] m by (rule refl)
    show "dict_get (finalize L kind ?q ?lim s') ''scanned''
          = JObj [(''items'', JInt (int (length ?items))),
                  (''pages'', JInt (int (card (fst ` set ?items))))]"
      unfolding finalize_get(2)[OF assms(1)] n by (rule refl)
  qed
qed

theorem early_stop_witness:
  "fst (fuzzy_search python three_pages_client ''/api/application/users'' ''john'' 1 2 100 55 ''user'')
     = [page_query 1 100]
   \<and> requests_of (iter_paginated three_pages_client ''/api/application/users'' 100 2 None)
     = [page_query 1 100, page_query 2 100]"
proof -
  let ?post = "[Item 1 john_smith, Fetch (page_query 2 100), Item 2 john_exact, Item 2 john_smith]"
  have h1: "strip ''john'' \<noteq> []"
    by (simp add: strip_def is_space_def)
  have h2: "iter_paginated three_pages_client ''/api/application/users'' 100 2 None
      = [Fetch (page_query 1 100)] @ Item 1 john_exact # ?post"
    by code_simp
  have h3: "scan_events (visit python ''user'' (strip ''john'') (max 1 (min 1 50)) 55) [Fetch (page_query 1 100)] init_state
      = ([page_query 1 100], Inr (init_state, False))"
    by simp
  have h4: "record_score python ''user'' (strip ''john'') john_exact = Some (100, Some ''username'')"
    by code_simp
  have h5: "199 / 2 \<le> (100::rat)" by simp
  have h6: "max 1 (min 1 50)
      \<le> int (length (accepted python ''user'' (strip ''john'') 55 (items_of ([Fetch (page_query 1 100)] @ [Item 1 john_exact]))))"
    by code_simp
  from early_stop[OF h1 h2 h3 h4 h5 h6] obtain out where
    "fuzzy_search python three_pages_client ''/api/application/users'' ''john'' 1 2 100 55 ''user''
       = (requests_of [Fetch (page_query 1 100)], Inr out)"
    by (elim exE conjE)
  then have "fst (fuzzy_search python three_pages_client ''/api/application/users'' ''john'' 1 2 100 55 ''user'')
     = [page_query 1 100]" by simp
  moreover have "requests_of (iter_paginated three_pages_client ''/api/application/users'' 100 2 None)
     = [page_query 1 100, page_query 2 100]"
    unfolding h2 by simp
  ultimately show ?thesis by (rule conjI)
qed

section \<open>The ranked matches\<close>

lemma round1_mono:
  assumes "x \<le> y"
  shows "round1 x \<le> round1 y"
proof -
  let ?n = "\<lfloor>x * 10\<rfloor>" and ?m = "\<lfloor>y * 10\<rfloor>"
  have bx: "of_int ?n / 10 \<le> round1 x" "round1 x \<le> of_int (?n + 1) / 10"
    by (simp_all add: round1_def Let_def)
  have bm: "of_int ?m / 10 \<le> round1 y"
    by (simp add: round1_def Let_def)
  have nm: "?n \<le> ?m" using assms by (simp add: floor_mono)
  show ?thesis
  proof (cases "?n = ?m")
    case False
    with nm have "?n + 1 \<le> ?m" by simp
    then have "(of_int (?n + 1) :: rat) \<le> of_int ?m" by (simp only: of_int_le_iff)
    then have "(of_int (?n + 1) :: rat) / 10 \<le> of_int ?m / 10" by simp
    with bx(2) bm show ?thesis by linarith
  next
    case True
    have "x * 10 - of_int ?m \<le> y * 10 - of_int ?m" using assms by simp
    then show ?thesis
      unfolding round1_def Let_def True by auto
  qed
qed

lemma round1_close: "x - 1 / 20 \<le> round1 x \<and> round1 x \<le> x + 1 / 20"
proof -
  obtain n where n: "n = \<lfloor>x * 10\<rfloor>" by simp
  have b: "of_int n \<le> x * 10" "x * 10 < of_int n + 1"
    unfolding n by linarith+
  have r: "round1 x =
     (if x * 10 - of_int n < 1 / 2 then of_int n / 10
      else if x * 10 - of_int n > 1 / 2 then of_int (n + 1) / 10
      else if even n then of_int n / 10 else of_int (n + 1) / 10)"
    unfolding round1_def Let_def n by (rule refl)
  consider "round1 x = of_int n / 10" "x * 10 - of_int n \<le> 1 / 2"
    | "round1 x = of_int (n + 1) / 10" "x * 10 - of_int n \<ge> 1 / 2"
    unfolding r by (cases "x * 10 - of_int n < 1 / 2"; cases "x * 10 - of_int n > 1 / 2"; cases "even n") auto
  then show ?thesis
  proof cases
    case 1
    with b show ?thesis by (simp add: field_simps)
  next
    case 2
    with b show ?thesis by (simp add: field_simps)
  qed
qed

lemma strip_nones_keep:
  "v \<noteq> JNull \<Longrightarrow> v \<noteq> JStr [] \<Longrightarrow> strip_nones ((k, v) # d) = (k, v) # strip_nones d"
  by (simp add: strip_nones_def)

lemma dict_get_head: "dict_get ((k, v) # d) k = v"
  by (simp add: dict_get_def)

lemma summarize_score:
  "dict_get (summarize L kind (score, attrs, matched_on)) ''score'' = JFloat (round1 score)"
proof -
  have "dict_get (strip_nones ((''score'', score_entry (Some score)) # d)) ''score'' = JFloat (round1 score)" for d
    by (simp add: score_entry_def strip_nones_keep dict_get_head)
  then show ?thesis
    by (simp add: summarize_def compact_user_def compact_server_def Let_def)
qed

lemma match_of_min_score: "t \<in> set (match_of L kind q ms attrs) \<Longrightarrow> ms \<le> fst t"
  by (auto simp add: match_of_def split: option.splits if_splits)

lemma accepted_min_score: "t \<in> set (accepted L kind q ms items) \<Longrightarrow> ms \<le> fst t"
  by (auto simp add: accepted_def dest: match_of_min_score)

lemma prefix_filter_take: "prefix (filter P (take n xs)) (filter P xs)"
proof -
  have "filter P xs = filter P (take n xs) @ filter P (drop n xs)"
    by (metis append_take_drop_id filter_append)
  then show ?thesis by (metis prefixI)
qed

lemma top_matches_facts:
  "sorted_wrt (\<lambda>a b. fst b \<le> fst a) (top_matches limit acc)
   \<and> (\<forall>v. prefix (filter (\<lambda>t. fst t = v) (top_matches limit acc)) (filter (\<lambda>t. fst t = v) acc))
   \<and> int (length (top_matches limit acc)) \<le> max 0 limit
   \<and> set (top_matches limit acc) \<subseteq> set acc"
proof -
  let ?s = "sort_key (\<lambda>t. - fst t) acc"
  have "sorted (map (\<lambda>t. - fst t) ?s)" by (rule sorted_sort_key)
  then have "sorted_wrt (\<lambda>a b. fst b \<le> fst a) ?s"
    by (simp add: sorted_wrt_map)
  then have 1: "sorted_wrt (\<lambda>a b. fst b \<le> fst a) (take (nat limit) ?s)"
    by (rule sorted_wrt_take)
  have "filter (\<lambda>t. fst t = v) ?s = filter (\<lambda>t. fst t = v) acc" for v
    using sort_key_stable[of "\<lambda>t. - fst t" "- v" acc] by simp
  then have 2: "\<forall>v. prefix (filter (\<lambda>t. fst t = v) (take (nat limit) ?s)) (filter (\<lambda>t. fst t = v) acc)"
    using prefix_filter_take[of _ "nat limit" ?s] by metis
  have 3: "int (length (take (nat limit) ?s)) \<le> max 0 limit" by simp
  have 4: "set (take (nat limit) ?s) \<subseteq> set acc"
    using set_take_subset[of "nat limit" ?s] by simp
  show ?thesis unfolding top_matches_def using 1 2 3 4 by blast
qed

text \<open>
  C1, amended. When a search returns, its matches are the summaries of \<open>top\<close>, where
  \<open>acc\<close> is the list of accepted matches in the order the scan discovered them and \<open>top\<close>
  is \<open>acc\<close> stably sorted by descending score and cut to the limit clamped to 1 .. 50. So
  \<open>top\<close> is in descending order of score, matches of equal score are in discovery order,
  there are at most as many as the clamped limit, and each has a score of at least the
  minimum score. The score a match reports is that score rounded to one decimal place: it
  is within 0.05 of the score, and the reported scores are in descending order as well.
\<close>

theorem ranked_matches:
  assumes "fuzzy_search L c path query limit max_pages per_page min_score kind = (sent, Inr out)"
  shows "\<exists>pre post acc top. iter_paginated c path per_page max_pages None = pre @ post
     \<and> sent = requests_of pre
     \<and> acc = accepted L kind (strip query) min_score (items_of pre)
     \<and> top = take (nat (max 1 (min limit 50))) (sort_key (\<lambda>t. - fst t) acc)
     \<and> dict_get out ''matches'' = JList (map (\<lambda>t. JObj (summarize L kind t)) top)
     \<and> sorted_wrt (\<lambda>a b. fst b \<le> fst a) top
     \<and> (\<forall>v. prefix (filter (\<lambda>t. fst t = v) top) (filter (\<lambda>t. fst t = v) acc))
     \<and> int (length top) \<le> max 1 (min limit 50) \<and> 1 \<le> max 1 (min limit 50) \<and> max 1 (min limit 50) \<le> 50
     \<and> (\<forall>t\<in>set top. min_score \<le> fst t
           \<and> dict_get (summarize L kind t) ''score'' = JFloat (round1 (fst t))
           \<and> fst t - 1 / 20 \<le> round1 (fst t) \<and> round1 (fst t) \<le> fst t + 1 / 20)
     \<and> sorted_wrt (\<lambda>a b. round1 (fst b) \<le> round1 (fst a)) top"
proof -
  let ?lim = "max 1 (min limit 50)"
  from assms obtain pre post s where p:
    "strip query \<noteq> []"
    "iter_paginated c path per_page max_pages None = pre @ post"
    "post = [] \<or> (\<exists>pre' page attrs. pre = pre' @ [Item page attrs])"
    "sent = requests_of pre"
    "candidates_scanned s = length (items_of pre)"
    "pages_scanned s = fst ` set (items_of pre)"
    "scored s = accepted L kind (strip query) min_score (items_of pre)"
    "out = finalize L kind (strip query) ?lim s"
    by (rule fuzzy_search_result)
  let ?acc = "accepted L kind (strip query) min_score (items_of pre)"
  let ?top = "take (nat ?lim) (sort_key (\<lambda>t. - fst t) ?acc)"
  have t: "top_matches ?lim ?acc = ?top" by (simp add: top_matches_def)
  note f = top_matches_facts[of ?lim ?acc, unfolded t]
  have srt: "sorted_wrt (\<lambda>a b. fst b \<le> fst a) ?top" using f by blast
  have stab: "\<forall>v. prefix (filter (\<lambda>t. fst t = v) ?top) (filter (\<lambda>t. fst t = v) ?acc)" using f by blast
  have len: "int (length ?top) \<le> ?lim" using f by simp
  have sub: "set ?top \<subseteq> set ?acc" using f by blast
  have each: "\<forall>t\<in>set ?top. min_score \<le> fst t
           \<and> dict_get (summarize L kind t) ''score'' = JFloat (round1 (fst t))
           \<and> fst t - 1 / 20 \<le> round1 (fst t) \<and> round1 (fst t) \<le> fst t + 1 / 20"
  proof
    fix t assume "t \<in> set ?top"
    with sub have "t \<in> set ?acc" by blast
    then have "min_score \<le> fst t" by (rule accepted_min_score)
    moreover have "dict_get (summarize L kind t) ''score'' = JFloat (round1 (fst t))"
      using summarize_score[of L kind "fst t" "fst (snd t)" "snd (snd t)"] by simp
    ultimately show "min_score \<le> fst t
           \<and> dict_get (summarize L kind t) ''score'' = JFloat (round1 (fst t))
           \<and> fst t - 1 / 20 \<le> round1 (fst t) \<and> round1 (fst t) \<le> fst t + 1 / 20"
      using round1_close[of "fst t"] by simp
  qed
  have rsrt: "sorted_wrt (\<lambda>a b. round1 (fst b) \<le> round1 (fst a)) ?top"
    using srt by (rule sorted_wrt_mono_rel[rotated]) (simp add: round1_mono)
  have g: "dict_get out ''matches'' = JList (map (\<lambda>t. JObj (summarize L kind t)) ?top)"
    unfolding p(8) finalize_get(1)[OF p(1)] p(7) t by (rule refl)
  show ?thesis
  proof (intro exI conjI)
    show "iter_paginated c path per_page max_pages None = pre @ post" by (rule p(2))
    show "sent = requests_of pre" by (rule p(4))
    show "?acc = accepted L kind (strip query) min_score (items_of pre)" by (rule refl)
    show "?top = take (nat ?lim) (sort_key (\<lambda>t. - fst t) ?acc)" by (rule refl)
    show "dict_get out ''matches'' = JList (map (\<lambda>t. JObj (summarize L kind t)) ?top)" by (rule g)
    show "sorted_wrt (\<lambda>a b. fst b \<le> fst a) ?top" by (rule srt)
    show "\<forall>v. prefix (filter (\<lambda>t. fst t = v) ?top) (filter (\<lambda>t. fst t = v) ?acc)" by (rule stab)
    show "int (length ?top) \<le> ?lim" by (rule len)
    show "1 \<le> ?lim" by simp
    show "?lim \<le> 50" by simp
    show "\<forall>t\<in>set ?top. min_score \<le> fst t
           \<and> dict_get (summarize L kind t) ''score'' = JFloat (round1 (fst t))
           \<and> fst t - 1 / 20 \<le> round1 (fst t) \<and> round1 (fst t) \<le> fst t + 1 / 20" by (rule each)
    show "sorted_wrt (\<lambda>a b. round1 (fst b) \<le> round1 (fst a)) ?top" by (rule rsrt)
  qed
qed

text \<open>
  C1, as the spec states it, fails on the score a returned match carries: with the minimum
  score 90.84 the record John Smith is accepted with the score 1181/13 (about 90.846) and
  returned with the score 90.8, which is below the minimum score.
\<close>

theorem reported_score_below_min_score_counterexample:
  "ptero_ai_search_users python one_record_client ''john'' 10 5 100 (2271 / 25)
     = ([page_query 1 100],
        Inr [(''query'', JStr ''john''),
             (''matches'', JList [JObj [(''score'', JFloat (454 / 5)), (''matched_on'', JStr ''name''),
                                        (''id'', JInt 7), (''email'', JStr ''js@example.org''),
                                        (''name'', JStr ''John Smith'')]]),
             (''scanned'', JObj [(''items'', JInt 1), (''pages'', JInt 1)])])
   \<and> (454 / 5 :: rat) < 2271 / 25"
  by code_simp

theorem ranked_matches_witness:
  "\<exists>top. JList [JObj [(''score'', JFloat 100), (''matched_on'', JStr ''username''),
                       (''id'', JInt 1), (''username'', JStr ''john'')],
                 JObj [(''score'', JFloat 100), (''matched_on'', JStr ''username''),
                       (''id'', JInt 1), (''username'', JStr ''john'')],
                 JObj [(''score'', JFloat (454 / 5)), (''matched_on'', JStr ''name''),
                       (''id'', JInt 7), (''email'', JStr ''js@example.org''),
                       (''name'', JStr ''John Smith'')]]
           = JList (map (\<lambda>t. JObj (summarize python ''user'' t)) top)
     \<and> sorted_wrt (\<lambda>a b. fst b \<le> fst a) top
     \<and> int (length top) \<le> 3"
proof -
  let ?matches = "JList [JObj [(''score'', JFloat 100), (''matched_on'', JStr ''username''),
                       (''id'', JInt 1), (''username'', JStr ''john'')],
                 JObj [(''score'', JFloat 100), (''matched_on'', JStr ''username''),
                       (''id'', JInt 1), (''username'', JStr ''john'')],
                 JObj [(''score'', JFloat (454 / 5)), (''matched_on'', JStr ''name''),
                       (''id'', JInt 7), (''email'', JStr ''js@example.org''),
                       (''name'', JStr ''John Smith'')]]"
  let ?out = "[(''query'', JStr ''john''), (''matches'', ?matches),
               (''scanned'', JObj [(''items'', JInt 3), (''pages'', JInt 2)])]"
  have ev: "fuzzy_search python three_pages_client ''/api/application/users'' ''john'' 3 2 100 55 ''user''
      = ([page_query 1 100, page_query 2 100], Inr ?out)"
    by code_simp
  have g: "dict_get ?out ''matches'' = ?matches"
    by (simp add: dict_get_def)
  have l: "max 1 (min 3 50) = (3::int)" by simp
  from ranked_matches[OF ev] obtain top where p:
    "dict_get ?out ''matches'' = JList (map (\<lambda>t. JObj (summarize python ''user'' t)) top)"
    "sorted_wrt (\<lambda>a b. fst b \<le> fst a) top"
    "int (length top) \<le> max 1 (min 3 50)"
    by (elim exE conjE)
  show ?thesis
  proof (intro exI conjI)
    show "?matches = JList (map (\<lambda>t. JObj (summarize python ''user'' t)) top)"
      using p(1) unfolding g by simp
    show "sorted_wrt (\<lambda>a b. fst b \<le> fst a) top" by (rule p(2))
    show "int (length top) \<le> 3" using p(3) unfolding l by simp
  qed
qed

end
